theory Spec2Isabelle
  imports Main
begin

unbundle bit_operations_syntax

section \<open>The LiteDRAM refresher (litedram/core/refresher.py)\<close>

text \<open>
  The refresher is a synchronous Migen design. A step of the model is one clock cycle:
  every register has one value during a cycle, a combinatorial signal (\<open>comb\<close>) is a
  function of the register values and the inputs of the same cycle, and a synchronous
  statement (\<open>sync\<close>) gives the value a register has during the next cycle. Of a list
  of synchronous statements the last assignment to a register wins.

  The timing parameters \<open>tREFI\<close>, \<open>tRP\<close> and \<open>tRFC\<close> are cycle counts; they are
  natural numbers here, and the properties below are stated for positive ones.
\<close>

subsection \<open>Migen primitives\<close>

text \<open>Python's \<open>int.bit_length\<close> on a natural number.\<close>

fun bit_length :: "nat \<Rightarrow> nat" where
  "bit_length n = (if n = 0 then 0 else Suc (bit_length (n div 2)))"

declare bit_length.simps [simp del]

text \<open>
  \<open>bits_for(n)\<close> of Migen for \<open>n \<ge> 0\<close>: \<open>log2_int(n + 1, False)\<close>, which is
  \<open>n.bit_length()\<close>, when \<open>n > 0\<close>, and one bit for \<open>n = 0\<close>.
\<close>

definition bits_for :: "nat \<Rightarrow> nat" where
  "bits_for n = (if 0 < n then bit_length n else 1)"

text \<open>
  \<open>timeline(trigger, events)\<close> of \<open>migen.genlib.misc\<close> declares a counter
  \<open>Signal(max=lastevent+1)\<close>, of \<open>max (bits_for 0) (bits_for lastevent)\<close> bits, with the
  logic
  \<^verbatim>\<open>
    counterlogic = If(counter != 0, counter.eq(counter + 1)).Elif(trigger, counter.eq(1))
    if (lastevent & (lastevent + 1)) != 0:
        counterlogic = If(counter == lastevent, counter.eq(0)).Else(counterlogic)
  \<close>
  The increment wraps at the width of the counter.
\<close>

definition timeline_counter :: "nat \<Rightarrow> bool \<Rightarrow> nat \<Rightarrow> nat" where
  "timeline_counter lastevent trigger counter =
     (if lastevent AND (lastevent + 1) \<noteq> 0 \<and> counter = lastevent then 0
      else if counter \<noteq> 0
        then (counter + 1) mod 2 ^ max (bits_for 0) (bits_for lastevent)
      else if trigger then 1
      else counter)"

text \<open>
  The condition under which the statements of the event at offset \<open>e0\<close> run:
  \<^verbatim>\<open>
    def get_cond(e):
        if e[0] == 0: return trigger & (counter == 0)
        else:         return counter == e[0]
  \<close>
\<close>

definition get_cond :: "nat \<Rightarrow> bool \<Rightarrow> nat \<Rightarrow> bool" where
  "get_cond e0 trigger counter =
     (if e0 = 0 then trigger \<and> counter = 0 else counter = e0)"

subsection \<open>RefreshSequencer\<close>

text \<open>
  The registers the sequencer writes: the command fields \<open>cmd.a\<close>, \<open>cmd.ba\<close>,
  \<open>cmd.cas\<close>, \<open>cmd.ras\<close>, \<open>cmd.we\<close>, its \<open>done\<close> output and the counter of the
  timeline.
\<close>

record sequencer_regs =
  cmd_a :: nat
  cmd_ba :: nat
  cmd_cas :: bool
  cmd_ras :: bool
  cmd_we :: bool
  seq_done :: bool
  seq_counter :: nat

text \<open>All registers are 0 after reset.\<close>

definition RefreshSequencer_reset :: sequencer_regs where
  "RefreshSequencer_reset =
     \<lparr>cmd_a = 0, cmd_ba = 0, cmd_cas = False, cmd_ras = False, cmd_we = False,
      seq_done = False, seq_counter = 0\<rparr>"

text \<open>
  One clock edge of the sequencer. The first block of statements drives \<open>cmd.a\<close> to
  \<open>2**10\<close> (cut to the \<open>abits\<close> bits of the field), \<open>cmd.ba\<close> to 0 and clears the
  three strobes; the second block clears \<open>done\<close> and then runs the timeline with the
  events \<open>(0, [ras, we])\<close>, \<open>(trp, [cas, ras])\<close> and \<open>(trp + trfc, [done])\<close>, whose
  assignments override the cleared values in the cycle their condition holds.
\<close>

definition RefreshSequencer_sync ::
  "nat \<Rightarrow> nat \<Rightarrow> nat \<Rightarrow> bool \<Rightarrow> sequencer_regs \<Rightarrow> sequencer_regs" where
  "RefreshSequencer_sync abits trp trfc start s =
     (let lastevent = max 0 (max trp (trp + trfc));
          c = seq_counter s;
          precharge_all = get_cond 0 start c;
          auto_refresh = get_cond trp start c;
          finished = get_cond (trp + trfc) start c
      in \<lparr>cmd_a = 2 ^ 10 mod 2 ^ abits,
          cmd_ba = 0,
          cmd_cas = auto_refresh,
          cmd_ras = (precharge_all \<or> auto_refresh),
          cmd_we = precharge_all,
          seq_done = finished,
          seq_counter = timeline_counter lastevent start c\<rparr>)"

text \<open>
  The sequencer on its own, from reset, with the \<open>start\<close> input given for every cycle:
  the registers during cycle \<open>n\<close>.
\<close>

fun RefreshSequencer_run ::
  "nat \<Rightarrow> nat \<Rightarrow> nat \<Rightarrow> (nat \<Rightarrow> bool) \<Rightarrow> nat \<Rightarrow> sequencer_regs" where
  "RefreshSequencer_run abits trp trfc start 0 = RefreshSequencer_reset"
| "RefreshSequencer_run abits trp trfc start (Suc n) =
     RefreshSequencer_sync abits trp trfc (start n)
       (RefreshSequencer_run abits trp trfc start n)"

subsection \<open>RefreshTimer\<close>

text \<open>The combinatorial output \<open>done\<close> of the timer: \<open>done.eq(count == 0)\<close>.\<close>

definition timer_done :: "nat \<Rightarrow> bool" where
  "timer_done count = (count = 0)"

text \<open>
  One clock edge of the timer register \<open>count\<close>, whose reset value is \<open>trefi - 1\<close>.
  The decrement runs only where \<open>count \<noteq> 0\<close>, so it never wraps.
\<close>

definition RefreshTimer_sync :: "nat \<Rightarrow> bool \<Rightarrow> bool \<Rightarrow> nat \<Rightarrow> nat \<Rightarrow> nat" where
  "RefreshTimer_sync trefi wait load load_count count =
     (if wait then
        (if \<not> timer_done count then
           (if load \<and> load_count < count then load_count else count - 1)
         else count)
      else trefi - 1)"

text \<open>
  \<open>ResetInserter()(timer)\<close>: while \<open>reset\<close> is asserted the clock edge loads the reset
  value into every register of the timer, whatever its own statements say.
\<close>

definition ResetInserter_timer_sync ::
  "nat \<Rightarrow> bool \<Rightarrow> bool \<Rightarrow> bool \<Rightarrow> nat \<Rightarrow> nat \<Rightarrow> nat" where
  "ResetInserter_timer_sync trefi reset wait load load_count count =
     (if reset then trefi - 1 else RefreshTimer_sync trefi wait load load_count count)"

text \<open>
  The timer as the refresher wires it (\<open>timer.wait.eq(~timer.done)\<close>), with the
  \<open>reset\<close>, \<open>load\<close> and \<open>load_count\<close> inputs given for every cycle, started with the
  count \<open>c0\<close>: the count during cycle \<open>n\<close>.
\<close>

fun timer_run ::
  "nat \<Rightarrow> (nat \<Rightarrow> bool) \<Rightarrow> (nat \<Rightarrow> bool) \<Rightarrow> (nat \<Rightarrow> nat) \<Rightarrow> nat \<Rightarrow> nat \<Rightarrow> nat" where
  "timer_run trefi reset load load_count c0 0 = c0"
| "timer_run trefi reset load load_count c0 (Suc n) =
     (let count = timer_run trefi reset load load_count c0 n
      in ResetInserter_timer_sync trefi (reset n) (\<not> timer_done count)
           (load n) (load_count n) count)"

subsection \<open>Refresher\<close>

record settings =
  addressbits :: nat
  tREFI :: nat
  tRP :: nat
  tRFC :: nat
  with_refresh :: bool

text \<open>
  \<open>timer.reset.eq(~settings.with_refresh)\<close>: \<open>with_refresh\<close> is a Python \<open>bool\<close>, so
  \<open>~\<close> is the complement of the integer 0 or 1, and the one-bit signal \<open>reset\<close> takes
  the lowest bit of that integer.
\<close>

definition timer_reset :: "bool \<Rightarrow> bool" where
  "timer_reset wr = ((- (if wr then 1 else 0) - 1 :: int) mod 2 = 1)"

datatype fsm_state = IDLE | WAIT_CONTROLLER_GRANT | WAIT_SEQUENCER

text \<open>
  The combinatorial signals the FSM drives in a cycle; a signal the active state does
  not assign is 0, and the next state is the present one unless \<open>NextState\<close> is
  reached.
\<close>

record fsm_comb =
  cmd_valid :: bool
  cmd_last :: bool
  sequencer_start :: bool
  next_state :: fsm_state

definition fsm_act :: "fsm_state \<Rightarrow> bool \<Rightarrow> bool \<Rightarrow> bool \<Rightarrow> fsm_comb" where
  "fsm_act st tdone cmd_ready sdone =
     (case st of
        IDLE \<Rightarrow>
          \<lparr>cmd_valid = False, cmd_last = False, sequencer_start = False,
           next_state = (if tdone then WAIT_CONTROLLER_GRANT else IDLE)\<rparr>
      | WAIT_CONTROLLER_GRANT \<Rightarrow>
          \<lparr>cmd_valid = True, cmd_last = False, sequencer_start = cmd_ready,
           next_state = (if cmd_ready then WAIT_SEQUENCER else WAIT_CONTROLLER_GRANT)\<rparr>
      | WAIT_SEQUENCER \<Rightarrow>
          \<lparr>cmd_valid = (\<not> sdone), cmd_last = sdone, sequencer_start = False,
           next_state = (if sdone then IDLE else WAIT_SEQUENCER)\<rparr>)"

record refresher_regs =
  timer_count :: nat
  sequencer :: sequencer_regs
  fsm :: fsm_state

definition Refresher_reset :: "settings \<Rightarrow> refresher_regs" where
  "Refresher_reset cfg =
     \<lparr>timer_count = tREFI cfg - 1, sequencer = RefreshSequencer_reset, fsm = IDLE\<rparr>"

text \<open>The combinatorial signals of a cycle, from the registers and the input \<open>cmd.ready\<close>.\<close>

definition Refresher_comb :: "bool \<Rightarrow> refresher_regs \<Rightarrow> fsm_comb" where
  "Refresher_comb cmd_ready s =
     fsm_act (fsm s) (timer_done (timer_count s)) cmd_ready (seq_done (sequencer s))"

text \<open>
  One clock edge of the whole refresher. The refresher drives neither \<open>timer.load\<close> nor
  \<open>timer.load_count\<close>, which therefore stay 0.
\<close>

definition Refresher_sync :: "settings \<Rightarrow> bool \<Rightarrow> refresher_regs \<Rightarrow> refresher_regs" where
  "Refresher_sync cfg cmd_ready s =
     (let out = Refresher_comb cmd_ready s
      in \<lparr>timer_count =
            ResetInserter_timer_sync (tREFI cfg) (timer_reset (with_refresh cfg))
              (\<not> timer_done (timer_count s)) False 0 (timer_count s),
          sequencer =
            RefreshSequencer_sync (addressbits cfg) (tRP cfg) (tRFC cfg)
              (sequencer_start out) (sequencer s),
          fsm = next_state out\<rparr>)"

text \<open>The registers of the refresher during cycle \<open>n\<close> after reset.\<close>

fun Refresher_run :: "settings \<Rightarrow> (nat \<Rightarrow> bool) \<Rightarrow> nat \<Rightarrow> refresher_regs" where
  "Refresher_run cfg cmd_ready 0 = Refresher_reset cfg"
| "Refresher_run cfg cmd_ready (Suc n) =
     Refresher_sync cfg (cmd_ready n) (Refresher_run cfg cmd_ready n)"

subsection \<open>Input signals over time\<close>

text \<open>
  An input is a function from the cycle number to its value in that cycle: a signal
  asserted in cycle \<open>t\<close> only, one that is never asserted and one that is always
  asserted.
\<close>

definition pulse_at :: "nat \<Rightarrow> nat \<Rightarrow> bool" where
  "pulse_at t k = (k = t)"

definition held_low :: "nat \<Rightarrow> bool" where
  "held_low k = False"

definition held_high :: "nat \<Rightarrow> bool" where
  "held_high k = True"

text \<open>The value on a multi-bit input that stays the same in every cycle.\<close>

definition held_at :: "nat \<Rightarrow> nat \<Rightarrow> nat" where
  "held_at v k = v"

subsection \<open>The end-to-end scenario\<close>

text \<open>
  The configuration of the scenario of the specification: \<open>interval = 100\<close>,
  \<open>prechargeDelay = 5\<close>, \<open>refreshDuration = 10\<close>, refresh enabled. The width of the
  address field, which the scenario leaves open, is 13 bits.
\<close>

definition scenario :: settings where
  "scenario = \<lparr>addressbits = 13, tREFI = 100, tRP = 5, tRFC = 10, with_refresh = True\<rparr>"

text \<open>
  The scenario numbers the steps from 1: step \<open>k\<close> is the \<open>k\<close>-th clock cycle, the
  first being the cycle in which the registers hold their reset values.
\<close>

definition Refresher_at_step :: "settings \<Rightarrow> (nat \<Rightarrow> bool) \<Rightarrow> nat \<Rightarrow> refresher_regs" where
  "Refresher_at_step cfg cmd_ready k = Refresher_run cfg cmd_ready (k - 1)"

section \<open>Properties\<close>

subsection \<open>Widths and the timeline counter\<close>

lemma timer_reset_iff: "timer_reset wr = (\<not> wr)"
  by (simp add: timer_reset_def)

lemma bit_length_gt: "n < 2 ^ bit_length n"
proof (induction n rule: bit_length.induct)
  case (1 n)
  show ?case
  proof (cases "n = 0")
    case True
    then show ?thesis by (simp add: bit_length.simps)
  next
    case False
    with 1 have "n div 2 < 2 ^ bit_length (n div 2)" by simp
    then have "n < 2 * 2 ^ bit_length (n div 2)" by linarith
    with False show ?thesis by (simp add: bit_length.simps [of n])
  qed
qed

lemma and_succ_step:
  assumes "0 < (n::nat)"
  shows "n AND (n + 1) = 2 * ((n div 2) AND ((n + 1) div 2))"
proof -
  have "(n mod 2) * ((n + 1) mod 2) = 0" by (cases "even n") (simp_all add: mod_Suc)
  then show ?thesis using assms
    by (subst and_nat_unfold) simp
qed

text \<open>
  Migen's test \<open>(lastevent & (lastevent + 1)) == 0\<close> holds exactly when the counter
  overflows to 0 by itself after \<open>lastevent\<close>.
\<close>

lemma all_ones_pow2: "n AND (n + 1) = 0 \<Longrightarrow> n + 1 = 2 ^ bit_length n"
proof (induction n rule: bit_length.induct)
  case (1 n)
  show ?case
  proof (cases "n = 0")
    case True
    then show ?thesis by (simp add: bit_length.simps)
  next
    case False
    then have pos: "0 < n" by simp
    from and_succ_step [OF pos] "1.prems"
    have z: "(n div 2) AND ((n + 1) div 2) = 0" by simp
    have odd: "odd n"
    proof (rule ccontr)
      assume "\<not> odd n"
      then have "(n + 1) div 2 = n div 2" by simp
      with z have "n div 2 = 0" by simp
      with \<open>\<not> odd n\<close> pos show False by auto
    qed
    then have "(n + 1) div 2 = n div 2 + 1" by simp
    with z have "n div 2 AND (n div 2 + 1) = 0" by simp
    with 1 False have "n div 2 + 1 = 2 ^ bit_length (n div 2)" by simp
    moreover from odd have "n + 1 = 2 * (n div 2 + 1)" by presburger
    ultimately show ?thesis using False by (simp add: bit_length.simps [of n])
  qed
qed

lemma bits_for_pos: "0 < n \<Longrightarrow> max (bits_for 0) (bits_for n) = bit_length n"
  by (simp add: bits_for_def bit_length.simps [of n])

lemma timeline_counter_idle:
  "0 < L \<Longrightarrow> timeline_counter L trigger 0 = (if trigger then 1 else 0)"
  by (simp add: timeline_counter_def)

lemma timeline_counter_count:
  assumes "0 < c" "c < L"
  shows "timeline_counter L trigger c = c + 1"
proof -
  have "c + 1 < 2 ^ bit_length L" using bit_length_gt [of L] assms by linarith
  then show ?thesis using assms by (simp add: timeline_counter_def bits_for_pos)
qed

lemma timeline_counter_last:
  assumes "0 < L"
  shows "timeline_counter L trigger L = 0"
proof (cases "L AND (L + 1) = 0")
  case True
  then have "L + 1 = 2 ^ bit_length L" by (rule all_ones_pow2)
  with assms True show ?thesis by (simp add: timeline_counter_def bits_for_pos)
next
  case False
  then show ?thesis by (simp add: timeline_counter_def)
qed

subsection \<open>The sequencer after a single start pulse\<close>

text \<open>
  The registers of the sequencer in every cycle after the first, when \<open>start\<close> is
  asserted in cycle \<open>t\<close> only: the counter runs from 1 to \<open>trp + trfc\<close> in the
  cycles \<open>t + 1\<close> to \<open>t + trp + trfc\<close>, and each event's registers are set in the
  cycle after the one in which its condition holds.
\<close>

lemma sequencer_run_pulse:
  assumes "0 < trp" "0 < trfc"
  shows "RefreshSequencer_run abits trp trfc (pulse_at t) (Suc n) =
     \<lparr>cmd_a = 2 ^ 10 mod 2 ^ abits, cmd_ba = 0,
      cmd_cas = (n = t + trp),
      cmd_ras = (n = t \<or> n = t + trp),
      cmd_we = (n = t),
      seq_done = (n = t + (trp + trfc)),
      seq_counter = (if t \<le> n \<and> n < t + (trp + trfc) then Suc n - t else 0)\<rparr>"
proof (induction n)
  case 0
  show ?case using assms
    by (cases "t = 0")
       (simp_all add: RefreshSequencer_sync_def RefreshSequencer_reset_def get_cond_def
          pulse_at_def timeline_counter_idle Let_def)
next
  case (Suc n)
  let ?L = "trp + trfc"
  let ?c = "if t \<le> n \<and> n < t + ?L then Suc n - t else 0"
  have L: "0 < ?L" using assms by simp
  have cnt: "timeline_counter ?L (pulse_at t (Suc n)) ?c =
      (if t \<le> Suc n \<and> Suc n < t + ?L then Suc (Suc n) - t else 0)"
  proof -
    consider (idle) "n < t" | (last) "t \<le> n" "Suc n = t + ?L" | (run) "t \<le> n" "Suc n < t + ?L"
      | (after) "t + ?L \<le> n" by linarith
    then show ?thesis
    proof cases
      case idle
      then show ?thesis using L by (auto simp: timeline_counter_idle pulse_at_def)
    next
      case last
      then have "?c = ?L" by auto
      then show ?thesis using last timeline_counter_last [OF L] by simp
    next
      case run
      then have "0 < ?c" "?c < ?L" by auto
      from timeline_counter_count [OF this] run show ?thesis by auto
    next
      case after
      then show ?thesis using L by (auto simp: timeline_counter_idle pulse_at_def)
    qed
  qed
  have c0: "get_cond 0 (pulse_at t (Suc n)) ?c = (Suc n = t)"
    by (auto simp: get_cond_def pulse_at_def)
  have c1: "get_cond trp (pulse_at t (Suc n)) ?c = (Suc n = t + trp)"
    using assms by (auto simp: get_cond_def)
  have c2: "get_cond ?L (pulse_at t (Suc n)) ?c = (Suc n = t + ?L)"
    using assms by (auto simp: get_cond_def)
  have m: "max 0 (max trp (trp + trfc)) = ?L" by simp
  have sc: "seq_counter (RefreshSequencer_run abits trp trfc (pulse_at t) (Suc n)) = ?c"
    by (simp only: Suc.IH sequencer_regs.simps)
  have "RefreshSequencer_run abits trp trfc (pulse_at t) (Suc (Suc n)) =
      RefreshSequencer_sync abits trp trfc (pulse_at t (Suc n))
        (RefreshSequencer_run abits trp trfc (pulse_at t) (Suc n))"
    by (simp only: RefreshSequencer_run.simps)
  then show ?case
    unfolding RefreshSequencer_sync_def Let_def sc m c0 c1 c2 cnt
    by simp
qed

lemma sequencer_run_idle:
  assumes "0 < trp" "0 < trfc"
  shows "RefreshSequencer_run abits trp trfc held_low (Suc n) =
     \<lparr>cmd_a = 2 ^ 10 mod 2 ^ abits, cmd_ba = 0, cmd_cas = False, cmd_ras = False,
      cmd_we = False, seq_done = False, seq_counter = 0\<rparr>"
  using assms
  by (induction n)
     (simp_all add: RefreshSequencer_sync_def RefreshSequencer_reset_def get_cond_def
        held_low_def timeline_counter_idle Let_def)

subsection \<open>The free-running timer\<close>

lemma timer_run_free:
  assumes "0 < trefi"
  shows "timer_run trefi held_low held_low lc (trefi - 1) n = trefi - 1 - n mod trefi"
proof (induction n)
  case 0
  then show ?case by simp
next
  case (Suc n)
  have lt: "n mod trefi < trefi" using assms by simp
  show ?case
  proof (cases "n mod trefi = trefi - 1")
    case True
    then have "Suc n mod trefi = 0" using assms by (simp add: mod_Suc)
    with True Suc show ?thesis
      by (simp add: ResetInserter_timer_sync_def RefreshTimer_sync_def timer_done_def
          held_low_def Let_def)
  next
    case False
    with lt have "Suc n mod trefi = Suc (n mod trefi)" by (simp add: mod_Suc)
    with False lt Suc show ?thesis
      by (simp add: ResetInserter_timer_sync_def RefreshTimer_sync_def timer_done_def
          held_low_def Let_def)
  qed
qed

lemma window_residue:
  assumes "0 < (m::nat)"
  shows "\<exists>!k. s \<le> k \<and> k < s + m \<and> k mod m = m - 1"
proof -
  define b where "b = s div m"
  define r where "r = s mod m"
  have s: "s = m * b + r" unfolding b_def r_def by simp
  have "r < m" unfolding r_def using assms by simp
  then have r: "r \<le> m - 1" by linarith
  let ?k = "m * b + (m - 1)"
  have "?k mod m = (m - 1) mod m" by simp
  then have km: "?k mod m = m - 1" using assms by simp
  have "s \<le> ?k" "?k < s + m" using s r assms by linarith+
  with km have ex: "s \<le> ?k \<and> ?k < s + m \<and> ?k mod m = m - 1" by blast
  have uniq: "k = ?k" if k: "s \<le> k \<and> k < s + m \<and> k mod m = m - 1" for k
  proof -
    define a where "a = k div m"
    have "k = m * (k div m) + k mod m" by simp
    with k have keq: "k = m * a + (m - 1)" unfolding a_def by simp
    have "a = b"
    proof (rule ccontr)
      assume "a \<noteq> b"
      then consider "a < b" | "b < a" by linarith
      then show False
      proof cases
        case 1
        then have "m * (a + 1) \<le> m * b" by (intro mult_le_mono2) simp
        then have "m * a + m \<le> m * b" by (simp add: algebra_simps)
        with keq s k assms show False by linarith
      next
        case 2
        then have "m * (b + 1) \<le> m * a" by (intro mult_le_mono2) simp
        then have "m * b + m \<le> m * a" by (simp add: algebra_simps)
        with keq s k r assms show False by linarith
      qed
    qed
    with keq show ?thesis by simp
  qed
  from ex uniq show ?thesis by blast
qed

lemma timer_run_Suc:
  "timer_run trefi reset load lc c0 (Suc n) =
     ResetInserter_timer_sync trefi (reset n)
       (\<not> timer_done (timer_run trefi reset load lc c0 n)) (load n) (lc n)
       (timer_run trefi reset load lc c0 n)"
  by (simp add: Let_def)

lemma timer_run_countdown:
  assumes "lc 0 = v" and "v < c0"
  shows "j \<le> v \<Longrightarrow> timer_run trefi held_low (pulse_at 0) lc c0 (Suc j) = v - j"
proof (induction j)
  case 0
  have "held_low 0 = False" "pulse_at 0 0 = True" by (simp_all add: held_low_def pulse_at_def)
  with assms show ?case
    unfolding timer_run_Suc
    by (simp add: ResetInserter_timer_sync_def RefreshTimer_sync_def timer_done_def)
next
  case (Suc j)
  then have ih: "timer_run trefi held_low (pulse_at 0) lc c0 (Suc j) = v - j" by simp
  have in0: "held_low (Suc j) = False" "pulse_at 0 (Suc j) = False"
    by (simp_all add: held_low_def pulse_at_def)
  from Suc.prems have "v - j \<noteq> 0" by simp
  then show ?case
    unfolding timer_run_Suc [of _ _ _ _ _ "Suc j"] ih in0
    by (simp add: ResetInserter_timer_sync_def RefreshTimer_sync_def timer_done_def)
qed

lemma timer_run_reload_ignored:
  assumes "c0 \<le> lc 0"
  shows "timer_run trefi held_low (pulse_at 0) lc c0 n = timer_run trefi held_low held_low lc c0 n"
proof (induction n)
  case 0
  show ?case by simp
next
  case (Suc n)
  show ?case
  proof (cases n)
    case 0
    have "held_low 0 = False" "pulse_at 0 0 = True" by (simp_all add: held_low_def pulse_at_def)
    with assms show ?thesis
      unfolding 0 timer_run_Suc
      by (simp add: ResetInserter_timer_sync_def RefreshTimer_sync_def timer_done_def)
  next
    case (Suc m)
    then have "held_low n = False" "pulse_at 0 n = False"
      by (simp_all add: held_low_def pulse_at_def)
    then show ?thesis
      unfolding timer_run_Suc [of _ _ _ _ _ n] Suc.IH by simp
  qed
qed

lemma timer_run_reset:
  assumes "\<forall>k<n. rst k"
  shows "0 < m \<Longrightarrow> m \<le> n \<Longrightarrow> timer_run trefi rst ld lc c0 m = trefi - 1"
proof (cases m)
  case 0
  assume "0 < m"
  with 0 show ?thesis by simp
next
  case (Suc j)
  assume "m \<le> n"
  with Suc assms have "rst j" by simp
  then show ?thesis unfolding Suc timer_run_Suc by (simp add: ResetInserter_timer_sync_def)
qed

subsection \<open>The refresher\<close>

lemma Refresher_comb_valid:
  "cmd_valid (Refresher_comb r s) =
     (fsm s = WAIT_CONTROLLER_GRANT \<or> fsm s = WAIT_SEQUENCER \<and> \<not> seq_done (sequencer s))"
  by (cases "fsm s") (simp_all add: Refresher_comb_def fsm_act_def)

lemma Refresher_comb_last:
  "cmd_last (Refresher_comb r s) = (fsm s = WAIT_SEQUENCER \<and> seq_done (sequencer s))"
  by (cases "fsm s") (simp_all add: Refresher_comb_def fsm_act_def)

lemma Refresher_comb_start:
  "sequencer_start (Refresher_comb r s) = (fsm s = WAIT_CONTROLLER_GRANT \<and> r)"
  by (cases "fsm s") (simp_all add: Refresher_comb_def fsm_act_def)

lemma Refresher_comb_next:
  "next_state (Refresher_comb r s) =
     (case fsm s of
        IDLE \<Rightarrow> if timer_done (timer_count s) then WAIT_CONTROLLER_GRANT else IDLE
      | WAIT_CONTROLLER_GRANT \<Rightarrow> if r then WAIT_SEQUENCER else WAIT_CONTROLLER_GRANT
      | WAIT_SEQUENCER \<Rightarrow> if seq_done (sequencer s) then IDLE else WAIT_SEQUENCER)"
  by (cases "fsm s") (simp_all add: Refresher_comb_def fsm_act_def)

lemma Refresher_sync_fsm: "fsm (Refresher_sync cfg r s) = next_state (Refresher_comb r s)"
  by (simp add: Refresher_sync_def Let_def)

lemma Refresher_sync_sequencer:
  "sequencer (Refresher_sync cfg r s) =
     RefreshSequencer_sync (addressbits cfg) (tRP cfg) (tRFC cfg)
       (fsm s = WAIT_CONTROLLER_GRANT \<and> r) (sequencer s)"
  by (simp add: Refresher_sync_def Let_def Refresher_comb_start)

lemma Refresher_sync_timer:
  "timer_count (Refresher_sync cfg r s) =
     ResetInserter_timer_sync (tREFI cfg) (\<not> with_refresh cfg)
       (\<not> timer_done (timer_count s)) False 0 (timer_count s)"
  by (simp add: Refresher_sync_def Let_def timer_reset_iff)

lemma RefreshSequencer_sync_regs:
  "RefreshSequencer_sync abits trp trfc start s =
     \<lparr>cmd_a = 2 ^ 10 mod 2 ^ abits, cmd_ba = 0,
      cmd_cas = get_cond trp start (seq_counter s),
      cmd_ras = (get_cond 0 start (seq_counter s) \<or> get_cond trp start (seq_counter s)),
      cmd_we = get_cond 0 start (seq_counter s),
      seq_done = get_cond (trp + trfc) start (seq_counter s),
      seq_counter = timeline_counter (trp + trfc) start (seq_counter s)\<rparr>"
  by (simp add: RefreshSequencer_sync_def Let_def)

text \<open>The sequencer is idle whenever the FSM is not waiting for it.\<close>

lemma Refresher_sequencer_idle:
  assumes "0 < tRP cfg" and "0 < tRFC cfg"
  shows "(fsm (Refresher_run cfg ready n) \<noteq> WAIT_SEQUENCER \<longrightarrow>
            seq_counter (sequencer (Refresher_run cfg ready n)) = 0) \<and>
         (seq_done (sequencer (Refresher_run cfg ready n)) \<longrightarrow>
            seq_counter (sequencer (Refresher_run cfg ready n)) = 0)"
proof (induction n)
  case 0
  show ?case by (simp add: Refresher_reset_def RefreshSequencer_reset_def)
next
  case (Suc n)
  let ?s = "Refresher_run cfg ready n"
  let ?L = "tRP cfg + tRFC cfg"
  have L: "0 < ?L" using assms by simp
  have step: "Refresher_run cfg ready (Suc n) = Refresher_sync cfg (ready n) ?s" by simp
  have d: "seq_done (sequencer (Refresher_sync cfg (ready n) ?s)) \<Longrightarrow>
      seq_counter (sequencer (Refresher_sync cfg (ready n) ?s)) = 0"
    unfolding Refresher_sync_sequencer RefreshSequencer_sync_regs
    using L timeline_counter_last [OF L] by (simp add: get_cond_def)
  have i: "seq_counter (sequencer (Refresher_sync cfg (ready n) ?s)) = 0"
    if "fsm (Refresher_sync cfg (ready n) ?s) \<noteq> WAIT_SEQUENCER"
  proof (cases "fsm ?s")
    case IDLE
    with Suc.IH have "seq_counter (sequencer ?s) = 0" by simp
    with IDLE L show ?thesis
      unfolding Refresher_sync_sequencer RefreshSequencer_sync_regs
      by (simp add: timeline_counter_idle)
  next
    case WAIT_CONTROLLER_GRANT
    with Suc.IH have c: "seq_counter (sequencer ?s) = 0" by simp
    from that WAIT_CONTROLLER_GRANT have "\<not> ready n"
      unfolding Refresher_sync_fsm Refresher_comb_next by (simp split: if_splits)
    with c L show ?thesis
      unfolding Refresher_sync_sequencer RefreshSequencer_sync_regs
      by (simp add: timeline_counter_idle)
  next
    case WAIT_SEQUENCER
    with that have "seq_done (sequencer ?s)"
      unfolding Refresher_sync_fsm Refresher_comb_next by (simp split: if_splits)
    with Suc.IH have "seq_counter (sequencer ?s) = 0" by simp
    with WAIT_SEQUENCER L show ?thesis
      unfolding Refresher_sync_sequencer RefreshSequencer_sync_regs
      by (simp add: timeline_counter_idle)
  qed
  from d i show ?case unfolding step by blast
qed

text \<open>
  The cycles after a grant: when the FSM waits for the grant in cycle \<open>g\<close> and
  \<open>cmd.ready\<close> is asserted in that cycle, the registers in the cycles \<open>g + 1\<close> to
  \<open>g + tRP + tRFC + 1\<close> are these, whatever \<open>cmd.ready\<close> does meanwhile.
\<close>

lemma Refresher_after_grant:
  assumes "0 < tRP cfg" and "0 < tRFC cfg"
    and "fsm (Refresher_run cfg ready g) = WAIT_CONTROLLER_GRANT" and "ready g"
  shows "j \<le> tRP cfg + tRFC cfg \<Longrightarrow>
     fsm (Refresher_run cfg ready (g + Suc j)) = WAIT_SEQUENCER \<and>
     sequencer (Refresher_run cfg ready (g + Suc j)) =
       \<lparr>cmd_a = 2 ^ 10 mod 2 ^ addressbits cfg, cmd_ba = 0,
        cmd_cas = (j = tRP cfg),
        cmd_ras = (j = 0 \<or> j = tRP cfg),
        cmd_we = (j = 0),
        seq_done = (j = tRP cfg + tRFC cfg),
        seq_counter = (if j < tRP cfg + tRFC cfg then Suc j else 0)\<rparr>"
proof (induction j)
  case 0
  let ?s = "Refresher_run cfg ready g"
  let ?L = "tRP cfg + tRFC cfg"
  have L: "0 < ?L" using assms by simp
  from Refresher_sequencer_idle [OF assms(1,2), of ready g] assms(3)
  have c: "seq_counter (sequencer ?s) = 0" by simp
  have step: "Refresher_run cfg ready (g + Suc 0) = Refresher_sync cfg (ready g) ?s" by simp
  show ?case
    unfolding step Refresher_sync_fsm Refresher_comb_next Refresher_sync_sequencer
      RefreshSequencer_sync_regs c
    using assms L by (simp add: get_cond_def timeline_counter_idle)
next
  case (Suc j)
  let ?s = "Refresher_run cfg ready (g + Suc j)"
  let ?L = "tRP cfg + tRFC cfg"
  from Suc have j: "j < ?L" by simp
  with Suc have f: "fsm ?s = WAIT_SEQUENCER"
    and c: "seq_counter (sequencer ?s) = Suc j"
    and d: "\<not> seq_done (sequencer ?s)" by simp_all
  have step: "Refresher_run cfg ready (g + Suc (Suc j)) =
      Refresher_sync cfg (ready (g + Suc j)) ?s" by simp
  have cnt: "timeline_counter ?L False (Suc j) = (if Suc j < ?L then Suc (Suc j) else 0)"
  proof (cases "Suc j < ?L")
    case True
    then show ?thesis using timeline_counter_count [of "Suc j" ?L False] by simp
  next
    case False
    with j have e: "Suc j = ?L" by simp
    have "0 < ?L" using assms(1) by simp
    from timeline_counter_last [OF this, of False] False show ?thesis
      unfolding e by simp
  qed
  show ?case
    unfolding step Refresher_sync_fsm Refresher_comb_next Refresher_sync_sequencer
      RefreshSequencer_sync_regs c f
    using d cnt assms(1,2) by (simp add: get_cond_def)
qed

lemma Refresher_run_Suc:
  "Refresher_run cfg ready (Suc n) = Refresher_sync cfg (ready n) (Refresher_run cfg ready n)"
  by simp

lemma Refresher_timer_count:
  assumes "with_refresh cfg"
  shows "timer_count (Refresher_run cfg ready n) =
     timer_run (tREFI cfg) held_low held_low (held_at 0) (tREFI cfg - 1) n"
proof (induction n)
  case 0
  show ?case by (simp add: Refresher_reset_def)
next
  case (Suc n)
  have "held_low n = False" "held_at 0 n = 0" by (simp_all add: held_low_def held_at_def)
  with assms show ?case
    unfolding Refresher_run_Suc timer_run_Suc Refresher_sync_timer Suc.IH by simp
qed

lemma Refresher_timer_done:
  assumes "with_refresh cfg" and "0 < tREFI cfg"
  shows "timer_done (timer_count (Refresher_run cfg ready n)) = (n mod tREFI cfg = tREFI cfg - 1)"
proof -
  have "n mod tREFI cfg < tREFI cfg" using assms(2) by simp
  then show ?thesis
    unfolding Refresher_timer_count [OF assms(1)] timer_run_free [OF assms(2)] timer_done_def
    by linarith
qed

lemma Refresher_idle_until_pulse:
  assumes "with_refresh cfg" and "0 < tREFI cfg"
  shows "n < tREFI cfg \<Longrightarrow> fsm (Refresher_run cfg ready n) = IDLE"
proof (induction n)
  case 0
  show ?case by (simp add: Refresher_reset_def)
next
  case (Suc n)
  then have i: "fsm (Refresher_run cfg ready n) = IDLE" by simp
  from Suc.prems have "n mod tREFI cfg \<noteq> tREFI cfg - 1" by simp
  then have "\<not> timer_done (timer_count (Refresher_run cfg ready n))"
    unfolding Refresher_timer_done [OF assms] .
  then show ?case
    unfolding Refresher_run_Suc Refresher_sync_fsm Refresher_comb_next i by simp
qed

lemma Refresher_first_request:
  assumes "with_refresh cfg" and "0 < tREFI cfg"
  shows "fsm (Refresher_run cfg ready (tREFI cfg)) = WAIT_CONTROLLER_GRANT"
proof -
  obtain m where m: "tREFI cfg = Suc m" using assms(2) by (cases "tREFI cfg") simp_all
  have i: "fsm (Refresher_run cfg ready m) = IDLE"
    by (rule Refresher_idle_until_pulse [OF assms]) (simp add: m)
  have "m mod tREFI cfg = tREFI cfg - 1" by (simp add: m)
  then have "timer_done (timer_count (Refresher_run cfg ready m))"
    unfolding Refresher_timer_done [OF assms] .
  then show ?thesis
    unfolding m Refresher_run_Suc Refresher_sync_fsm Refresher_comb_next i by simp
qed

lemma scenario_fields:
  "with_refresh scenario" "tREFI scenario = 100" "tRP scenario = 5" "tRFC scenario = 10"
  "addressbits scenario = 13"
  by (simp_all add: scenario_def)

lemma scenario_grant: "fsm (Refresher_run scenario held_high 100) = WAIT_CONTROLLER_GRANT"
  using Refresher_first_request [of scenario held_high] by (simp add: scenario_fields)

subsection \<open>The scenario\<close>

lemma scenario_steps:
  "Refresher_at_step scenario held_high 100 = Refresher_run scenario held_high 99"
  "Refresher_at_step scenario held_high 101 = Refresher_run scenario held_high 100"
  "Refresher_at_step scenario held_high 102 = Refresher_run scenario held_high 101"
  "Refresher_at_step scenario held_high 107 = Refresher_run scenario held_high 106"
  "Refresher_at_step scenario held_high 115 = Refresher_run scenario held_high 114"
  "Refresher_at_step scenario held_high 116 = Refresher_run scenario held_high 115"
  "Refresher_at_step scenario held_high 117 = Refresher_run scenario held_high 116"
  "Refresher_at_step scenario held_high 118 = Refresher_run scenario held_high 117"
  by (simp_all add: Refresher_at_step_def)

lemma scenario_pulse_step: "fsm (Refresher_run scenario held_high 99) = IDLE"
  by (rule Refresher_idle_until_pulse) (simp_all add: scenario_fields)

lemma scenario_sequence:
  assumes "j \<le> 15" and "n = 101 + j"
  shows "fsm (Refresher_run scenario held_high n) = WAIT_SEQUENCER \<and>
     sequencer (Refresher_run scenario held_high n) =
       \<lparr>cmd_a = 2 ^ 10 mod 2 ^ 13, cmd_ba = 0, cmd_cas = (j = 5),
        cmd_ras = (j = 0 \<or> j = 5), cmd_we = (j = 0), seq_done = (j = 15),
        seq_counter = (if j < 15 then Suc j else 0)\<rparr>"
proof -
  have h: "0 < tRP scenario" "0 < tRFC scenario" "held_high 100"
    "j \<le> tRP scenario + tRFC scenario"
    using assms by (simp_all add: scenario_fields held_high_def)
  have n: "100 + Suc j = n" using assms(2) by simp
  from Refresher_after_grant [OF h(1,2) scenario_grant h(3,4)] show ?thesis
    unfolding n scenario_fields by simp
qed


lemma scenario_pulses:
  "timer_done (timer_count (Refresher_at_step scenario held_high (Suc n))) =
      (Suc n mod 100 = 0)"
proof -
  have "timer_done (timer_count (Refresher_run scenario held_high n)) = (n mod 100 = 99)"
    using Refresher_timer_done [of scenario held_high n] by (simp add: scenario_fields)
  moreover have "(n mod 100 = 99) = (Suc n mod 100 = 0)" by (simp add: mod_Suc)
  moreover have "Refresher_at_step scenario held_high (Suc n) = Refresher_run scenario held_high n"
    by (simp add: Refresher_at_step_def)
  ultimately show ?thesis by simp
qed

section \<open>The timer\<close>

text \<open>
  Claim C1. For every interval \<open>trefi > 0\<close>, with the timer wired as in the refresher
  (\<open>wait\<close> is the negation of \<open>done\<close>), never reset and never reloaded, started
  from its reset value: among any \<open>trefi\<close> consecutive cycles there is exactly one in
  which \<open>done\<close> is asserted, and in the cycle after a \<open>done\<close> cycle the count is
  \<open>trefi - 1\<close> again.
\<close>

theorem timer_periodic_pulse:
  assumes "0 < trefi"
  shows "(\<forall>s. \<exists>!k. s \<le> k \<and> k < s + trefi \<and>
            timer_done (timer_run trefi held_low held_low lc (trefi - 1) k)) \<and>
         (\<forall>k. timer_done (timer_run trefi held_low held_low lc (trefi - 1) k) \<longrightarrow>
            timer_run trefi held_low held_low lc (trefi - 1) (Suc k) = trefi - 1)"
proof -
  have d: "timer_done (timer_run trefi held_low held_low lc (trefi - 1) k) =
      (k mod trefi = trefi - 1)" for k
  proof -
    have "k mod trefi < trefi" using assms by simp
    then show ?thesis unfolding timer_run_free [OF assms] timer_done_def by linarith
  qed
  have reload: "timer_run trefi held_low held_low lc (trefi - 1) (Suc k) = trefi - 1"
    if "k mod trefi = trefi - 1" for k
  proof -
    from that assms have "Suc k mod trefi = 0" by (simp add: mod_Suc)
    then show ?thesis unfolding timer_run_free [OF assms] by simp
  qed
  from window_residue [OF assms] reload show ?thesis
    unfolding d by blast
qed

theorem timer_periodic_pulse_witness:
  "(0::nat) < 3 \<and>
   (\<exists>!k. 4 \<le> k \<and> k < 4 + 3 \<and> timer_done (timer_run 3 held_low held_low (held_at 0) (3 - 1) k)) \<and>
   timer_done (timer_run 3 held_low held_low (held_at 0) (3 - 1) 5) \<and>
   timer_run 3 held_low held_low (held_at 0) (3 - 1) (Suc 5) = 3 - 1"
proof -
  have h: "(0::nat) < 3" by simp
  have d: "timer_done (timer_run 3 held_low held_low (held_at 0) (3 - 1) 5)"
    by code_simp
  from timer_periodic_pulse [OF h, of "held_at 0"] d h show ?thesis by blast
qed

text \<open>
  Claim C6 (as amended). An enabled timer with count \<open>c0 \<noteq> 0\<close> sees the reload
  input asserted in cycle 0 with the value \<open>v = lc 0\<close>. If \<open>v < c0\<close>, the count is
  \<open>v\<close> in cycle 1, the cycle after the reload, and \<open>v - j\<close> in every cycle \<open>j + 1\<close>
  up to \<open>v + 1\<close>; so \<open>done\<close> is deasserted in the cycles 0 to \<open>v\<close> and asserted in
  cycle \<open>v + 1\<close>: the pulse comes \<open>v\<close> cycles after the cycle in which the count is
  \<open>v\<close>. If \<open>v \<ge> c0\<close>, the count in every cycle is the one of the run without
  reload.
\<close>

theorem timer_reload:
  assumes "c0 \<noteq> 0"
  shows "(lc 0 < c0 \<longrightarrow>
            timer_run trefi held_low (pulse_at 0) lc c0 (Suc 0) = lc 0 \<and>
            (\<forall>j \<le> lc 0. timer_run trefi held_low (pulse_at 0) lc c0 (Suc j) = lc 0 - j) \<and>
            (\<forall>k \<le> lc 0. \<not> timer_done (timer_run trefi held_low (pulse_at 0) lc c0 k)) \<and>
            timer_done (timer_run trefi held_low (pulse_at 0) lc c0 (lc 0 + 1))) \<and>
         (c0 \<le> lc 0 \<longrightarrow>
            (\<forall>n. timer_run trefi held_low (pulse_at 0) lc c0 n =
                  timer_run trefi held_low held_low lc c0 n))"
proof (intro conjI impI allI)
  assume lt: "lc 0 < c0"
  from timer_run_countdown [of lc "lc 0" c0 0 trefi] lt
  show "timer_run trefi held_low (pulse_at 0) lc c0 (Suc 0) = lc 0" by simp
next
  fix j
  assume lt: "lc 0 < c0" and j: "j \<le> lc 0"
  from timer_run_countdown [of lc "lc 0" c0 j trefi] lt j
  show "timer_run trefi held_low (pulse_at 0) lc c0 (Suc j) = lc 0 - j" by simp
next
  fix k
  assume lt: "lc 0 < c0" and k: "k \<le> lc 0"
  show "\<not> timer_done (timer_run trefi held_low (pulse_at 0) lc c0 k)"
  proof (cases k)
    case 0
    with assms show ?thesis by (simp add: timer_done_def)
  next
    case (Suc j)
    with k have j: "j \<le> lc 0" and "lc 0 - j \<noteq> 0" by simp_all
    from timer_run_countdown [of lc "lc 0" c0 j trefi] lt j
    have "timer_run trefi held_low (pulse_at 0) lc c0 (Suc j) = lc 0 - j" by simp
    with \<open>lc 0 - j \<noteq> 0\<close> show ?thesis
      unfolding Suc timer_done_def by simp
  qed
next
  assume lt: "lc 0 < c0"
  from timer_run_countdown [of lc "lc 0" c0 "lc 0" trefi] lt
  have "timer_run trefi held_low (pulse_at 0) lc c0 (Suc (lc 0)) = lc 0 - lc 0" by simp
  then show "timer_done (timer_run trefi held_low (pulse_at 0) lc c0 (lc 0 + 1))"
    unfolding timer_done_def by simp
next
  fix n
  assume "c0 \<le> lc 0"
  then show "timer_run trefi held_low (pulse_at 0) lc c0 n =
      timer_run trefi held_low held_low lc c0 n"
    by (rule timer_run_reload_ignored)
qed

theorem timer_reload_witness:
  "(5::nat) \<noteq> 0 \<and> held_at 2 0 < (5::nat) \<and>
   timer_run 10 held_low (pulse_at 0) (held_at 2) 5 (Suc 0) = 2 \<and>
   timer_run 10 held_low (pulse_at 0) (held_at 2) 5 (Suc 1) = 1 \<and>
   \<not> timer_done (timer_run 10 held_low (pulse_at 0) (held_at 2) 5 2) \<and>
   timer_done (timer_run 10 held_low (pulse_at 0) (held_at 2) 5 3) \<and>
   (5::nat) \<le> held_at 7 0 \<and>
   timer_run 10 held_low (pulse_at 0) (held_at 7) 5 4 =
     timer_run 10 held_low held_low (held_at 7) 5 4"
proof -
  have h: "(5::nat) \<noteq> 0" by simp
  have a: "held_at 2 0 < (5::nat)" and b: "(5::nat) \<le> held_at 7 0"
    by (simp_all add: held_at_def)
  have v: "held_at 2 0 = 2" by (simp add: held_at_def)
  note t = timer_reload [OF h, of "held_at 2" 10]
  from t a have "timer_run 10 held_low (pulse_at 0) (held_at 2) 5 (Suc 0) = held_at 2 0"
    by blast
  then have c1: "timer_run 10 held_low (pulse_at 0) (held_at 2) 5 (Suc 0) = 2"
    unfolding v .
  from t a have "1 \<le> held_at 2 0 \<longrightarrow>
      timer_run 10 held_low (pulse_at 0) (held_at 2) 5 (Suc 1) = held_at 2 0 - 1"
    by blast
  then have c2: "timer_run 10 held_low (pulse_at 0) (held_at 2) 5 (Suc 1) = 1"
    unfolding v by simp
  from t a
  have "\<not> timer_done (timer_run 10 held_low (pulse_at 0) (held_at 2) 5 2) \<and>
        timer_done (timer_run 10 held_low (pulse_at 0) (held_at 2) 5 3)"
    unfolding v by simp
  moreover note c1 c2
  moreover from timer_reload [OF h, of "held_at 7" 10] b
  have "timer_run 10 held_low (pulse_at 0) (held_at 7) 5 4 =
     timer_run 10 held_low held_low (held_at 7) 5 4" by blast
  ultimately show ?thesis using a b h by blast
qed

text \<open>
  The claim as stated puts the pulse \<open>v\<close> cycles after the reload cycle. With the
  count 5 and the reload value 2, \<open>done\<close> is not asserted 2 cycles after the reload
  cycle; it is asserted 3 cycles after it.
\<close>

theorem timer_reload_offset_counterexample:
  "(5::nat) \<noteq> 0 \<and> held_at 2 0 < (5::nat) \<and>
   \<not> timer_done (timer_run 10 held_low (pulse_at 0) (held_at 2) 5 2) \<and>
   timer_done (timer_run 10 held_low (pulse_at 0) (held_at 2) 5 3)"
  by code_simp

text \<open>
  Claim C7 (as amended). For every interval \<open>trefi > 1\<close> and every prior count, a
  clock edge taken while the timer is disabled (\<open>reset\<close> asserted, as the refresher
  does without \<open>with_refresh\<close>, or \<open>wait\<close> deasserted) leaves the count at
  \<open>trefi - 1\<close> with \<open>done\<close> deasserted; so while \<open>reset\<close> is held during the
  cycles before \<open>n\<close>, the count is \<open>trefi - 1\<close> and \<open>done\<close> is deasserted in every
  cycle from 1 to \<open>n\<close>.
\<close>

theorem timer_disabled_pinned:
  assumes "1 < trefi"
  shows "(reset \<or> \<not> wait \<longrightarrow>
            ResetInserter_timer_sync trefi reset wait load load_count count = trefi - 1 \<and>
            \<not> timer_done (ResetInserter_timer_sync trefi reset wait load load_count count)) \<and>
         ((\<forall>k<n. rst k) \<longrightarrow>
            (\<forall>m. 0 < m \<and> m \<le> n \<longrightarrow>
               timer_run trefi rst ld lc c0 m = trefi - 1 \<and>
               \<not> timer_done (timer_run trefi rst ld lc c0 m)))"
proof (intro conjI impI allI)
  assume g: "reset \<or> \<not> wait"
  then show e: "ResetInserter_timer_sync trefi reset wait load load_count count = trefi - 1"
    by (auto simp: ResetInserter_timer_sync_def RefreshTimer_sync_def)
  from assms show "\<not> timer_done (ResetInserter_timer_sync trefi reset wait load load_count count)"
    unfolding e timer_done_def by simp
next
  fix m
  assume r: "\<forall>k<n. rst k" and m: "0 < m \<and> m \<le> n"
  then show e: "timer_run trefi rst ld lc c0 m = trefi - 1"
    using timer_run_reset [of n rst m trefi ld lc c0] by blast
  from assms show "\<not> timer_done (timer_run trefi rst ld lc c0 m)"
    unfolding e timer_done_def by simp
qed

theorem timer_disabled_pinned_witness:
  "(1::nat) < 100 \<and>
   ResetInserter_timer_sync 100 True False False 0 0 = 100 - 1 \<and>
   \<not> timer_done (ResetInserter_timer_sync 100 True False False 0 0) \<and>
   held_high 0 \<and> held_high 1 \<and>
   timer_run 100 held_high held_low (held_at 0) 0 2 = 100 - 1 \<and>
   \<not> timer_done (timer_run 100 held_high held_low (held_at 0) 0 2)"
proof -
  have h: "(1::nat) < 100" by simp
  have r: "\<forall>k<2. held_high k" and r01: "held_high 0" "held_high 1"
    by (simp_all add: held_high_def)
  have m: "(0::nat) < 2 \<and> (2::nat) \<le> 2" by simp
  note t = timer_disabled_pinned [OF h, of True False False 0 0 2 held_high held_low "held_at 0" 0]
  from t r m h r01 show ?thesis by blast
qed

text \<open>
  The claim as stated covers the interval 1, whose reset value \<open>trefi - 1\<close> is 0: the
  disabled timer is pinned at 0 and \<open>done\<close> is asserted in every cycle.
\<close>

theorem timer_disabled_done_counterexample:
  "(0::nat) < 1 \<and> timer_reset False \<and>
   ResetInserter_timer_sync 1 (timer_reset False) False False 0 0 = 1 - 1 \<and>
   timer_done (ResetInserter_timer_sync 1 (timer_reset False) False False 0 0) \<and>
   timer_done (timer_run 1 held_high held_low (held_at 0) 0 1) \<and>
   timer_done (timer_run 1 held_high held_low (held_at 0) 0 2)"
  by code_simp

text \<open>
  Claim C9. With \<open>wait\<close> asserted and the count at 0, the clock edge leaves the count
  at 0 whatever \<open>load\<close> and \<open>load_count\<close> are; the same holds behind the
  \<open>ResetInserter\<close> while \<open>reset\<close> is not asserted.
\<close>

theorem timer_done_ignores_load:
  "RefreshTimer_sync trefi True load load_count 0 = 0 \<and>
   ResetInserter_timer_sync trefi False True load load_count 0 = 0"
  by (simp add: RefreshTimer_sync_def ResetInserter_timer_sync_def timer_done_def)

section \<open>The sequencer\<close>

text \<open>
  Claim C2 (as amended). For positive \<open>trp\<close> and \<open>trfc\<close>, when \<open>start\<close> is asserted
  in cycle \<open>t\<close> only, the \<open>done\<close> output of the sequencer is asserted in cycle
  \<open>t + trp + trfc + 1\<close> and in no other cycle; when \<open>start\<close> is never asserted,
  \<open>done\<close> is never asserted.
\<close>

theorem sequencer_done_once:
  assumes "0 < trp" and "0 < trfc"
  shows "(\<forall>n. seq_done (RefreshSequencer_run abits trp trfc (pulse_at t) n) =
            (n = t + (trp + trfc) + 1)) \<and>
         (\<forall>n. \<not> seq_done (RefreshSequencer_run abits trp trfc held_low n))"
proof -
  have a: "seq_done (RefreshSequencer_run abits trp trfc (pulse_at t) n) =
      (n = t + (trp + trfc) + 1)" for n
  proof (cases n)
    case 0
    then show ?thesis by (simp add: RefreshSequencer_reset_def)
  next
    case (Suc m)
    then show ?thesis unfolding Suc sequencer_run_pulse [OF assms] by simp
  qed
  have b: "\<not> seq_done (RefreshSequencer_run abits trp trfc held_low n)" for n
  proof (cases n)
    case 0
    then show ?thesis by (simp add: RefreshSequencer_reset_def)
  next
    case (Suc m)
    then show ?thesis unfolding Suc sequencer_run_idle [OF assms] by simp
  qed
  from a b show ?thesis by blast
qed

theorem sequencer_done_once_witness:
  "(0::nat) < 5 \<and> (0::nat) < 10 \<and>
   seq_done (RefreshSequencer_run 13 5 10 (pulse_at 3) 19) \<and>
   \<not> seq_done (RefreshSequencer_run 13 5 10 (pulse_at 3) 18) \<and>
   \<not> seq_done (RefreshSequencer_run 13 5 10 held_low 19)"
proof -
  have h1: "(0::nat) < 5" and h2: "(0::nat) < 10" by simp_all
  from sequencer_done_once [OF h1 h2, of 13 3] show ?thesis by simp
qed

text \<open>
  The claim as stated puts \<open>done\<close> \<open>trp + trfc\<close> cycles after the trigger. With
  \<open>trp = 5\<close>, \<open>trfc = 10\<close> and \<open>start\<close> asserted in cycle 0, \<open>done\<close> is not
  asserted in cycle 15; it is asserted in cycle 16.
\<close>

theorem sequencer_done_offset_counterexample:
  "(0::nat) < 5 \<and> (0::nat) < 10 \<and>
   \<not> seq_done (RefreshSequencer_run 13 5 10 (pulse_at 0) (5 + 10)) \<and>
   seq_done (RefreshSequencer_run 13 5 10 (pulse_at 0) (5 + 10 + 1))"
proof -
  have h1: "(0::nat) < 5" and h2: "(0::nat) < 10" by simp_all
  have "RefreshSequencer_run 13 5 10 (pulse_at 0) (Suc 14) =
      \<lparr>cmd_a = 2 ^ 10 mod 2 ^ 13, cmd_ba = 0, cmd_cas = False, cmd_ras = False,
       cmd_we = False, seq_done = False, seq_counter = 15\<rparr>"
    unfolding sequencer_run_pulse [OF h1 h2] by simp
  moreover have "RefreshSequencer_run 13 5 10 (pulse_at 0) (Suc 15) =
      \<lparr>cmd_a = 2 ^ 10 mod 2 ^ 13, cmd_ba = 0, cmd_cas = False, cmd_ras = False,
       cmd_we = False, seq_done = True, seq_counter = 0\<rparr>"
    unfolding sequencer_run_pulse [OF h1 h2] by simp
  ultimately show ?thesis by simp
qed

text \<open>
  Claim C3 (as amended). For positive \<open>trp\<close> and \<open>trfc\<close>, when \<open>start\<close> is asserted
  in cycle \<open>t\<close> only: \<open>cmd.we\<close> is asserted exactly in cycle \<open>t + 1\<close>, \<open>cmd.cas\<close>
  exactly in cycle \<open>t + trp + 1\<close>, and \<open>cmd.ras\<close> exactly in these two cycles. So
  \<open>ras\<close> and \<open>we\<close> are asserted together at offset 1 only, \<open>cas\<close> and \<open>ras\<close> at
  offset \<open>trp + 1\<close> only, each for one cycle, and no strobe is asserted at any other
  offset.
\<close>

theorem sequencer_strobes:
  assumes "0 < trp" and "0 < trfc"
  shows "(\<forall>n. cmd_we (RefreshSequencer_run abits trp trfc (pulse_at t) n) = (n = t + 1)) \<and>
         (\<forall>n. cmd_cas (RefreshSequencer_run abits trp trfc (pulse_at t) n) = (n = t + trp + 1)) \<and>
         (\<forall>n. cmd_ras (RefreshSequencer_run abits trp trfc (pulse_at t) n) =
            (n = t + 1 \<or> n = t + trp + 1))"
proof -
  have "cmd_we (RefreshSequencer_run abits trp trfc (pulse_at t) n) = (n = t + 1) \<and>
        cmd_cas (RefreshSequencer_run abits trp trfc (pulse_at t) n) = (n = t + trp + 1) \<and>
        cmd_ras (RefreshSequencer_run abits trp trfc (pulse_at t) n) =
          (n = t + 1 \<or> n = t + trp + 1)" for n
  proof (cases n)
    case 0
    then show ?thesis by (simp add: RefreshSequencer_reset_def)
  next
    case (Suc m)
    then show ?thesis unfolding Suc sequencer_run_pulse [OF assms] by simp
  qed
  then show ?thesis by blast
qed

theorem sequencer_strobes_witness:
  "(0::nat) < 5 \<and> (0::nat) < 10 \<and>
   cmd_we (RefreshSequencer_run 13 5 10 (pulse_at 3) 4) \<and>
   cmd_ras (RefreshSequencer_run 13 5 10 (pulse_at 3) 4) \<and>
   \<not> cmd_cas (RefreshSequencer_run 13 5 10 (pulse_at 3) 4) \<and>
   cmd_cas (RefreshSequencer_run 13 5 10 (pulse_at 3) 9) \<and>
   cmd_ras (RefreshSequencer_run 13 5 10 (pulse_at 3) 9) \<and>
   \<not> cmd_we (RefreshSequencer_run 13 5 10 (pulse_at 3) 9) \<and>
   \<not> cmd_ras (RefreshSequencer_run 13 5 10 (pulse_at 3) 3)"
proof -
  have h1: "(0::nat) < 5" and h2: "(0::nat) < 10" by simp_all
  from sequencer_strobes [OF h1 h2, of 13 3] show ?thesis by simp
qed

text \<open>
  The claim as stated puts the strobes at the offsets 0 and \<open>trp\<close>. With \<open>trp = 5\<close>,
  \<open>trfc = 10\<close> and \<open>start\<close> asserted in cycle 0, neither \<open>ras\<close> nor \<open>we\<close> is
  asserted in cycle 0, and neither \<open>cas\<close> nor \<open>ras\<close> in cycle 5.
\<close>

theorem sequencer_strobes_offset_counterexample:
  "(0::nat) < 5 \<and> (0::nat) < 10 \<and>
   \<not> cmd_ras (RefreshSequencer_run 13 5 10 (pulse_at 0) 0) \<and>
   \<not> cmd_we (RefreshSequencer_run 13 5 10 (pulse_at 0) 0) \<and>
   \<not> cmd_cas (RefreshSequencer_run 13 5 10 (pulse_at 0) 5) \<and>
   \<not> cmd_ras (RefreshSequencer_run 13 5 10 (pulse_at 0) 5)"
proof -
  have h1: "(0::nat) < 5" and h2: "(0::nat) < 10" by simp_all
  have "RefreshSequencer_run 13 5 10 (pulse_at 0) (Suc 4) =
      \<lparr>cmd_a = 2 ^ 10 mod 2 ^ 13, cmd_ba = 0, cmd_cas = False, cmd_ras = False,
       cmd_we = False, seq_done = False, seq_counter = 5\<rparr>"
    unfolding sequencer_run_pulse [OF h1 h2] by simp
  then show ?thesis by (simp add: RefreshSequencer_reset_def)
qed

section \<open>The refresher FSM\<close>

text \<open>
  Claim C4. In every cycle of every run of the refresher, \<open>cmd.valid\<close> is asserted
  exactly when the FSM is in \<open>WAIT-CONTROLLER-GRANT\<close>, or in \<open>WAIT-SEQUENCER\<close> with
  the sequencer's \<open>done\<close> not asserted (before the completion cycle); it is never
  asserted in \<open>IDLE\<close>.
\<close>

theorem request_only_when_waiting:
  "cmd_valid (Refresher_comb (ready n) (Refresher_run cfg ready n)) =
     (fsm (Refresher_run cfg ready n) = WAIT_CONTROLLER_GRANT \<or>
      fsm (Refresher_run cfg ready n) = WAIT_SEQUENCER \<and>
        \<not> seq_done (sequencer (Refresher_run cfg ready n))) \<and>
   \<not> (fsm (Refresher_run cfg ready n) = IDLE \<and>
      cmd_valid (Refresher_comb (ready n) (Refresher_run cfg ready n)))"
  unfolding Refresher_comb_valid by auto

theorem request_only_when_waiting_witness:
  "cmd_valid (Refresher_comb (held_high 100) (Refresher_run scenario held_high 100)) \<and>
   fsm (Refresher_run scenario held_high 100) = WAIT_CONTROLLER_GRANT \<and>
   fsm (Refresher_run scenario held_high 99) = IDLE \<and>
   \<not> cmd_valid (Refresher_comb (held_high 99) (Refresher_run scenario held_high 99))"
proof -
  have i: "fsm (Refresher_run scenario held_high 99) = IDLE"
    by (rule Refresher_idle_until_pulse) (simp_all add: scenario_fields)
  from request_only_when_waiting [of held_high 100 scenario]
    request_only_when_waiting [of held_high 99 scenario] scenario_grant i
  show ?thesis by blast
qed

text \<open>
  Claim C5. \<open>cmd.last\<close> is asserted exactly in the cycles in which the FSM is in
  \<open>WAIT-SEQUENCER\<close> and the sequencer's \<open>done\<close> is asserted, and in the cycle after
  such a cycle the FSM is in \<open>IDLE\<close>. In a maintenance cycle whose grant comes in cycle
  \<open>g\<close> (the FSM waits for the grant and \<open>cmd.ready\<close> is asserted), the FSM is in
  \<open>WAIT-SEQUENCER\<close> from cycle \<open>g + 1\<close> to cycle \<open>g + tRP + tRFC + 1\<close>,
  \<open>cmd.last\<close> is not asserted from cycle \<open>g\<close> to cycle \<open>g + tRP + tRFC\<close>, the
  sequencer's \<open>done\<close> and \<open>cmd.last\<close> are both asserted in cycle
  \<open>g + tRP + tRFC + 1\<close>, and the FSM is back in \<open>IDLE\<close> in the next cycle.
\<close>

theorem final_once_per_cycle:
  assumes "0 < tRP cfg" and "0 < tRFC cfg"
    and "fsm (Refresher_run cfg ready g) = WAIT_CONTROLLER_GRANT" and "ready g"
  shows "(\<forall>n. cmd_last (Refresher_comb (ready n) (Refresher_run cfg ready n)) =
            (fsm (Refresher_run cfg ready n) = WAIT_SEQUENCER \<and>
             seq_done (sequencer (Refresher_run cfg ready n)))) \<and>
         (\<forall>n. cmd_last (Refresher_comb (ready n) (Refresher_run cfg ready n)) \<longrightarrow>
            fsm (Refresher_run cfg ready (Suc n)) = IDLE) \<and>
         (\<forall>j. 0 < j \<and> j \<le> tRP cfg + tRFC cfg + 1 \<longrightarrow>
            fsm (Refresher_run cfg ready (g + j)) = WAIT_SEQUENCER) \<and>
         (\<forall>j. j \<le> tRP cfg + tRFC cfg \<longrightarrow>
            \<not> cmd_last (Refresher_comb (ready (g + j)) (Refresher_run cfg ready (g + j)))) \<and>
         seq_done (sequencer (Refresher_run cfg ready (g + (tRP cfg + tRFC cfg + 1)))) \<and>
         cmd_last (Refresher_comb (ready (g + (tRP cfg + tRFC cfg + 1)))
           (Refresher_run cfg ready (g + (tRP cfg + tRFC cfg + 1)))) \<and>
         fsm (Refresher_run cfg ready (g + (tRP cfg + tRFC cfg + 2))) = IDLE"
proof -
  let ?N = "tRP cfg + tRFC cfg"
  note after = Refresher_after_grant [OF assms]
  have last_idle: "fsm (Refresher_run cfg ready (Suc n)) = IDLE"
    if "cmd_last (Refresher_comb (ready n) (Refresher_run cfg ready n))" for n
    using that unfolding Refresher_comb_last Refresher_run_Suc Refresher_sync_fsm
      Refresher_comb_next by simp
  have running: "fsm (Refresher_run cfg ready (g + j)) = WAIT_SEQUENCER"
    if "0 < j \<and> j \<le> ?N + 1" for j
  proof -
    from that obtain i where i: "j = Suc i" "i \<le> ?N" by (cases j) simp_all
    from after [OF i(2)] show ?thesis unfolding i(1) by simp
  qed
  have quiet: "\<not> cmd_last (Refresher_comb (ready (g + j)) (Refresher_run cfg ready (g + j)))"
    if "j \<le> ?N" for j
  proof (cases j)
    case 0
    with assms(3) show ?thesis unfolding Refresher_comb_last by simp
  next
    case (Suc i)
    with that have "i \<le> ?N" "i \<noteq> ?N" by simp_all
    with after [of i] show ?thesis unfolding Suc Refresher_comb_last by simp
  qed
  from after [of ?N]
  have fin: "fsm (Refresher_run cfg ready (g + Suc ?N)) = WAIT_SEQUENCER"
    "seq_done (sequencer (Refresher_run cfg ready (g + Suc ?N)))" by simp_all
  then have l: "cmd_last (Refresher_comb (ready (g + Suc ?N)) (Refresher_run cfg ready (g + Suc ?N)))"
    unfolding Refresher_comb_last by simp
  from last_idle [OF l] have "fsm (Refresher_run cfg ready (g + (?N + 2))) = IDLE" by simp
  with fin l last_idle running quiet show ?thesis
    unfolding Refresher_comb_last by simp
qed

theorem final_once_per_cycle_witness:
  "0 < tRP scenario \<and> 0 < tRFC scenario \<and>
   fsm (Refresher_run scenario held_high 100) = WAIT_CONTROLLER_GRANT \<and> held_high 100 \<and>
   fsm (Refresher_run scenario held_high 101) = WAIT_SEQUENCER \<and>
   \<not> cmd_last (Refresher_comb (held_high 115) (Refresher_run scenario held_high 115)) \<and>
   seq_done (sequencer (Refresher_run scenario held_high 116)) \<and>
   cmd_last (Refresher_comb (held_high 116) (Refresher_run scenario held_high 116)) \<and>
   fsm (Refresher_run scenario held_high 117) = IDLE"
proof -
  have h: "0 < tRP scenario" "0 < tRFC scenario" "held_high 100"
    by (simp_all add: scenario_fields held_high_def)
  note t = final_once_per_cycle [OF h(1,2) scenario_grant h(3)]
  from t have "0 < (1::nat) \<and> 1 \<le> tRP scenario + tRFC scenario + 1 \<longrightarrow>
      fsm (Refresher_run scenario held_high (100 + 1)) = WAIT_SEQUENCER"
    by blast
  then have a: "fsm (Refresher_run scenario held_high (100 + 1)) = WAIT_SEQUENCER"
    by (simp add: scenario_fields)
  from t have "15 \<le> tRP scenario + tRFC scenario \<longrightarrow>
      \<not> cmd_last (Refresher_comb (held_high (100 + 15)) (Refresher_run scenario held_high (100 + 15)))"
    by blast
  then have b: "\<not> cmd_last (Refresher_comb (held_high (100 + 15)) (Refresher_run scenario held_high (100 + 15)))"
    by (simp add: scenario_fields)
  from t have c: "seq_done (sequencer (Refresher_run scenario held_high (100 + (tRP scenario + tRFC scenario + 1))))"
    "cmd_last (Refresher_comb (held_high (100 + (tRP scenario + tRFC scenario + 1)))
       (Refresher_run scenario held_high (100 + (tRP scenario + tRFC scenario + 1))))"
    "fsm (Refresher_run scenario held_high (100 + (tRP scenario + tRFC scenario + 2))) = IDLE"
    by blast+
  from a b c h scenario_grant show ?thesis by (simp add: scenario_fields)
qed

text \<open>
  Claim C10. In every cycle of every run of the refresher, \<open>cmd.valid\<close> and
  \<open>cmd.last\<close> are not both asserted; in the completion cycle (the FSM in
  \<open>WAIT-SEQUENCER\<close> with the sequencer's \<open>done\<close> asserted) \<open>cmd.valid\<close> is
  deasserted and \<open>cmd.last\<close> is asserted.
\<close>

theorem valid_last_exclusive:
  "\<not> (cmd_valid (Refresher_comb (ready n) (Refresher_run cfg ready n)) \<and>
      cmd_last (Refresher_comb (ready n) (Refresher_run cfg ready n))) \<and>
   (fsm (Refresher_run cfg ready n) = WAIT_SEQUENCER \<and>
    seq_done (sequencer (Refresher_run cfg ready n)) \<longrightarrow>
      \<not> cmd_valid (Refresher_comb (ready n) (Refresher_run cfg ready n)) \<and>
      cmd_last (Refresher_comb (ready n) (Refresher_run cfg ready n)))"
  unfolding Refresher_comb_valid Refresher_comb_last by auto

theorem valid_last_exclusive_witness:
  "fsm (Refresher_run scenario held_high 116) = WAIT_SEQUENCER \<and>
   seq_done (sequencer (Refresher_run scenario held_high 116)) \<and>
   \<not> cmd_valid (Refresher_comb (held_high 116) (Refresher_run scenario held_high 116)) \<and>
   cmd_last (Refresher_comb (held_high 116) (Refresher_run scenario held_high 116))"
proof -
  have h: "0 < tRP scenario" "0 < tRFC scenario" "held_high 100"
    by (simp_all add: scenario_fields held_high_def)
  from Refresher_after_grant [OF h(1,2) scenario_grant h(3), of 15]
  have "fsm (Refresher_run scenario held_high 116) = WAIT_SEQUENCER \<and>
      seq_done (sequencer (Refresher_run scenario held_high 116))"
    by (simp add: scenario_fields)
  with valid_last_exclusive [of held_high 116 scenario] show ?thesis by blast
qed

section \<open>The end-to-end scenario\<close>

text \<open>
  Claim C8 (as amended). In the run with \<open>interval = 100\<close>, \<open>prechargeDelay = 5\<close>,
  \<open>refreshDuration = 10\<close>, refresh enabled and \<open>cmd.ready\<close> always asserted, with the
  steps numbered from 1: the timer's \<open>done\<close> is asserted exactly at the steps 100, 200,
  300, ...; at step 100 the FSM is still in \<open>IDLE\<close>; the request \<open>cmd.valid\<close> is
  asserted and granted at step 101, where the sequencer is started; \<open>ras\<close> and \<open>we\<close>
  are asserted at step 102; \<open>cas\<close> and \<open>ras\<close> at step 107; the sequencer's \<open>done\<close> and
  \<open>cmd.last\<close> at step 117; the FSM is in \<open>IDLE\<close> again at step 118; and the next timer
  pulse is at step 200.
\<close>

theorem scenario_timing:
  "(\<forall>n. timer_done (timer_count (Refresher_at_step scenario held_high (Suc n))) =
      (Suc n mod 100 = 0)) \<and>
   fsm (Refresher_at_step scenario held_high 100) = IDLE \<and>
   fsm (Refresher_at_step scenario held_high 101) = WAIT_CONTROLLER_GRANT \<and>
   cmd_valid (Refresher_comb True (Refresher_at_step scenario held_high 101)) \<and>
   sequencer_start (Refresher_comb True (Refresher_at_step scenario held_high 101)) \<and>
   cmd_ras (sequencer (Refresher_at_step scenario held_high 102)) \<and>
   cmd_we (sequencer (Refresher_at_step scenario held_high 102)) \<and>
   cmd_cas (sequencer (Refresher_at_step scenario held_high 107)) \<and>
   cmd_ras (sequencer (Refresher_at_step scenario held_high 107)) \<and>
   seq_done (sequencer (Refresher_at_step scenario held_high 117)) \<and>
   cmd_last (Refresher_comb True (Refresher_at_step scenario held_high 117)) \<and>
   fsm (Refresher_at_step scenario held_high 118) = IDLE \<and>
   timer_done (timer_count (Refresher_at_step scenario held_high 200))"
proof -
  from scenario_pulses [of 199]
  have p200: "timer_done (timer_count (Refresher_at_step scenario held_high 200))"
    by simp
  have s102: "cmd_ras (sequencer (Refresher_run scenario held_high 101))"
    "cmd_we (sequencer (Refresher_run scenario held_high 101))"
    using scenario_sequence [of 0 101] by simp_all
  have s107: "cmd_cas (sequencer (Refresher_run scenario held_high 106))"
    "cmd_ras (sequencer (Refresher_run scenario held_high 106))"
    using scenario_sequence [of 5 106] by simp_all
  have s117: "fsm (Refresher_run scenario held_high 116) = WAIT_SEQUENCER"
    "seq_done (sequencer (Refresher_run scenario held_high 116))"
    using scenario_sequence [of 15 116] by simp_all
  then have l117: "cmd_last (Refresher_comb True (Refresher_run scenario held_high 116))"
    by (simp add: Refresher_comb_last)
  have "Refresher_run scenario held_high (Suc 116) =
      Refresher_sync scenario (held_high 116) (Refresher_run scenario held_high 116)"
    by (rule Refresher_run_Suc)
  moreover have "Suc 116 = (117::nat)" by simp
  ultimately have "Refresher_run scenario held_high 117 =
      Refresher_sync scenario (held_high 116) (Refresher_run scenario held_high 116)"
    by (simp only:)
  with s117 have s118: "fsm (Refresher_run scenario held_high 117) = IDLE"
    by (simp add: Refresher_sync_fsm Refresher_comb_next)
  have v101: "cmd_valid (Refresher_comb True (Refresher_run scenario held_high 100))"
    "sequencer_start (Refresher_comb True (Refresher_run scenario held_high 100))"
    using scenario_grant by (simp_all add: Refresher_comb_valid Refresher_comb_start)
  show ?thesis
    unfolding scenario_steps
    using scenario_pulses p200 scenario_pulse_step scenario_grant v101 s102 s107 s117 l117 s118
    by (intro conjI allI) assumption+
qed

theorem scenario_timing_witness:
  "timer_done (timer_count (Refresher_at_step scenario held_high 300)) \<and>
   \<not> timer_done (timer_count (Refresher_at_step scenario held_high 116)) \<and>
   cmd_last (Refresher_comb True (Refresher_at_step scenario held_high 117))"
proof -
  note t = scenario_timing
  from t have a: "timer_done (timer_count (Refresher_at_step scenario held_high (Suc 299))) =
      (Suc 299 mod 100 = 0)" by (elim conjE allE)
  from t have b: "timer_done (timer_count (Refresher_at_step scenario held_high (Suc 115))) =
      (Suc 115 mod 100 = 0)" by (elim conjE allE)
  from t have c: "cmd_last (Refresher_comb True (Refresher_at_step scenario held_high 117))"
    by (elim conjE)
  from a b c show ?thesis by simp
qed

text \<open>
  The claim as stated puts the request, the grant and the first strobes on the step of
  the timer pulse, and \<open>done\<close> and \<open>cmd.last\<close> 15 steps later. At step 100, the step
  of the pulse, \<open>cmd.valid\<close>, \<open>ras\<close> and \<open>we\<close> are not asserted; at step 115 neither
  the sequencer's \<open>done\<close> nor \<open>cmd.last\<close> is asserted; and at step 116 the FSM is in
  \<open>WAIT-SEQUENCER\<close>, not in \<open>IDLE\<close>.
\<close>

theorem scenario_same_step_counterexample:
  "timer_done (timer_count (Refresher_at_step scenario held_high 100)) \<and>
   \<not> cmd_valid (Refresher_comb True (Refresher_at_step scenario held_high 100)) \<and>
   \<not> cmd_ras (sequencer (Refresher_at_step scenario held_high 100)) \<and>
   \<not> cmd_we (sequencer (Refresher_at_step scenario held_high 100)) \<and>
   \<not> seq_done (sequencer (Refresher_at_step scenario held_high 115)) \<and>
   \<not> cmd_last (Refresher_comb True (Refresher_at_step scenario held_high 115)) \<and>
   fsm (Refresher_at_step scenario held_high 116) = WAIT_SEQUENCER"
proof -
  from scenario_pulses [of 99]
  have p: "timer_done (timer_count (Refresher_at_step scenario held_high 100))" by simp
  have v: "\<not> cmd_valid (Refresher_comb True (Refresher_run scenario held_high 99))"
    using scenario_pulse_step by (simp add: Refresher_comb_valid)
  have i98: "fsm (Refresher_run scenario held_high 98) = IDLE"
    by (rule Refresher_idle_until_pulse) (simp_all add: scenario_fields)
  have c98: "seq_counter (sequencer (Refresher_run scenario held_high 98)) = 0"
    using Refresher_sequencer_idle [of scenario held_high 98] i98 by (simp add: scenario_fields)
  have "Refresher_run scenario held_high (Suc 98) =
      Refresher_sync scenario (held_high 98) (Refresher_run scenario held_high 98)"
    by (rule Refresher_run_Suc)
  moreover have "Suc 98 = (99::nat)" by simp
  ultimately have "Refresher_run scenario held_high 99 =
      Refresher_sync scenario (held_high 98) (Refresher_run scenario held_high 98)"
    by (simp only:)
  with i98 c98 have q: "\<not> cmd_ras (sequencer (Refresher_run scenario held_high 99))"
    "\<not> cmd_we (sequencer (Refresher_run scenario held_high 99))"
    by (simp_all add: Refresher_sync_sequencer RefreshSequencer_sync_regs get_cond_def
        scenario_fields)
  have d: "fsm (Refresher_run scenario held_high 114) = WAIT_SEQUENCER"
    "\<not> seq_done (sequencer (Refresher_run scenario held_high 114))"
    using scenario_sequence [of 13 114] by simp_all
  then have l: "\<not> cmd_last (Refresher_comb True (Refresher_run scenario held_high 114))"
    by (simp add: Refresher_comb_last)
  have e: "fsm (Refresher_run scenario held_high 115) = WAIT_SEQUENCER"
    using scenario_sequence [of 14 115] by simp
  show ?thesis
    unfolding scenario_steps
    using p [unfolded scenario_steps] v q d l e
    by (intro conjI) assumption+
qed

end
